theory Spec2Isabelle
  imports Main "HOL-Library.Sublist"
begin

section \<open>Data model of backend/server.py\<close>

text \<open>
  The enums \<open>BotStatus\<close> and \<open>BotType\<close> (server.py, lines 59-70), with the
  constructors in the order of the source.
\<close>

datatype BotStatus = RUNNING | STOPPED | ERROR | STARTING | STOPPING

datatype BotType = DISCORD | TELEGRAM | WEBHOOK | GENERAL

text \<open>
  A \<open>datetime\<close> is a point on a discrete time line. A \<open>WebSocket\<close> object is
  compared by identity (Starlette sets \<open>__eq__ = object.__eq__\<close>), so a connection is
  its identity.
\<close>

type_synonym datetime = nat

type_synonym WebSocket = nat

text \<open>
  \<open>BotCreate\<close> (lines 91-98) and \<open>Bot\<close> (lines 73-89). \<open>Bot(**bot_data.dict())\<close>
  extends the fields of a \<open>BotCreate\<close>, so \<open>Bot\<close> is the record extension. The field
  \<open>id\<close> is written \<open>id_bot\<close>. The display fields \<open>cpu_usage\<close>, \<open>memory_usage\<close> (floats)
  and \<open>uptime\<close> are left out: they are stored once with their defaults and afterwards
  only set on the response objects of the read endpoints, never in the database.
\<close>

record BotCreate =
  name :: string
  description :: "string option"
  bot_type :: BotType
  command :: string
  working_directory :: string
  environment_vars :: "string \<rightharpoonup> string"
  port :: "int option"

record Bot = BotCreate +
  id_bot :: string
  status :: BotStatus
  pid :: "int option"
  created_at :: datetime
  last_started :: "datetime option"
  last_stopped :: "datetime option"

text \<open>\<open>LogEntry\<close> (lines 108-114); its field \<open>id\<close> is written \<open>id_log\<close>.\<close>

record LogEntry =
  id_log :: string
  bot_id :: string
  timestamp :: datetime
  level :: string
  message :: string
  source :: string

text \<open>
  \<open>SystemMetrics\<close> (lines 122-128) without its three floating-point readings; its
  field \<open>timestamp\<close> is written \<open>timestamp_metrics\<close>.
\<close>

record SystemMetrics =
  timestamp_metrics :: datetime
  active_bots :: nat
  total_bots :: nat

text \<open>
  What \<open>get_process_stats\<close> (lines 164-174) returns for a live process, without the
  two floating-point percentages.
\<close>

record process_stats =
  proc_status :: string
  create_time :: nat

text \<open>
  The JSON texts handed to \<open>manager.broadcast\<close> are kept as structured payloads: a
  log entry (lines 159-162, 351-354) or a system update (lines 425-431).
\<close>

datatype ws_message = Log_update LogEntry | System_update SystemMetrics "Bot list"

text \<open>One call of \<open>connection.send_text\<close>, as seen on the wire.\<close>

datatype send_event = Sent WebSocket ws_message | Send_failed WebSocket ws_message

text \<open>
  Exceptions. \<open>HTTPException status_code detail\<close> is the one the endpoints raise;
  \<open>ValueError\<close> is what \<open>list.remove\<close> raises for an absent element;
  \<open>ConnectionClosed\<close> stands for whatever \<open>send_text\<close> raises on a dead connection;
  \<open>Exception\<close> is any other exception, with its text, such as the document store
  raises when a call to it fails.
\<close>

datatype error =
    HTTPException nat string
  | ValueError string
  | ConnectionClosed
  | Exception string

text \<open>The JSON bodies the endpoints return.\<close>

datatype response =
    Message string
  | Started string int
  | Bot_body Bot
  | Bots_body "Bot list"

text \<open>
  What happens while a call is awaited: it returns, or it raises an exception with some
  text, or it returns after other tasks have run; of what those do, the model keeps the
  connections that their broadcasts removed from the shared list.
\<close>

datatype fate = Returns | Raises string | Dropped "WebSocket list"

text \<open>
  The state the handlers work on. \<open>bots\<close> and \<open>logs\<close> are the collections \<open>db.bots\<close>
  and \<open>db.logs\<close> in insertion order; \<open>active_connections\<close> is the list held by the
  \<open>ConnectionManager\<close>. The rest is the environment the handlers read:
  \<^item> \<open>closed\<close>: the connections on which \<open>send_text\<close> raises;
  \<open>wire\<close>: every \<open>send_text\<close> call so far;
  \<^item> \<open>processes\<close>: the process table as \<open>psutil\<close> sees it;
  \<^item> \<open>os_environ\<close>: the environment of the server process;
  \<^item> \<open>clock\<close>, \<open>uuid_src\<close>, \<open>entropy\<close>: the successive results of
    \<open>datetime.utcnow()\<close>, \<open>str(uuid.uuid4())\<close> and the random generator, with the number
    of values already consumed. No assumption is made on these sequences;
  \<^item> \<open>pending\<close>: the fates of the awaited calls to come, in order; when the list is
    used up, every further call returns at once.
\<close>

record state =
  bots :: "Bot list"
  logs :: "LogEntry list"
  active_connections :: "WebSocket list"
  closed :: "WebSocket \<Rightarrow> bool"
  wire :: "send_event list"
  processes :: "int \<Rightarrow> process_stats option"
  os_environ :: "string \<rightharpoonup> string"
  clock :: "nat \<Rightarrow> datetime"
  clock_reads :: nat
  uuid_src :: "nat \<Rightarrow> string"
  uuid_draws :: nat
  entropy :: "nat \<Rightarrow> nat"
  entropy_draws :: nat
  pending :: "fate list"

section \<open>Environment primitives\<close>

definition utcnow :: "state \<Rightarrow> datetime \<times> state" where
  "utcnow s = (clock s (clock_reads s), s\<lparr>clock_reads := Suc (clock_reads s)\<rparr>)"

definition uuid4 :: "state \<Rightarrow> string \<times> state" where
  "uuid4 s = (uuid_src s (uuid_draws s), s\<lparr>uuid_draws := Suc (uuid_draws s)\<rparr>)"

text \<open>\<open>random.randint(lo, hi)\<close>: some integer of the closed interval.\<close>

definition randint :: "int \<Rightarrow> int \<Rightarrow> state \<Rightarrow> int \<times> state" where
  "randint lo hi s =
     (lo + int (entropy s (entropy_draws s) mod nat (hi - lo + 1)),
      s\<lparr>entropy_draws := Suc (entropy_draws s)\<rparr>)"

text \<open>Decimal rendering of integers, for the f-strings.\<close>

fun str_nat :: "nat \<Rightarrow> string" where
  "str_nat n =
     (if n < 10 then [char_of (48 + n)]
      else str_nat (n div 10) @ [char_of (48 + n mod 10)])"

definition str_int :: "int \<Rightarrow> string" where
  "str_int i = (if i < 0 then CHR ''-'' # str_nat (nat (- i)) else str_nat (nat i))"

text \<open>
  \<open>str(e)\<close> of an exception. For \<open>HTTPException\<close> this is Starlette's
  \<open>"{status_code}: {detail}"\<close>.
\<close>

fun str_error :: "error \<Rightarrow> string" where
  "str_error (HTTPException c d) = str_nat c @ '': '' @ d"
| "str_error (ValueError m) = m"
| "str_error ConnectionClosed = []"
| "str_error (Exception m) = m"

text \<open>\<open>f"'{x}'"\<close>: a text between single quotes.\<close>

definition quoted :: "string \<Rightarrow> string" where
  "quoted x = CHR 0x27 # x @ [CHR 0x27]"

section \<open>Collection primitives (the document store)\<close>

text \<open>
  \<open>find_one({"id": bot_id})\<close>, \<open>update_one({"id": bot_id}, {"$set": ...})\<close> and
  \<open>delete_one({"id": bot_id})\<close> act on the first document with that \<open>id\<close>;
  \<open>delete_many({"bot_id": bot_id})\<close> on all of them. The store does not enforce
  unique \<open>id\<close>s.
\<close>

fun find_one :: "string \<Rightarrow> Bot list \<Rightarrow> Bot option" where
  "find_one i [] = None"
| "find_one i (b # bs) = (if id_bot b = i then Some b else find_one i bs)"

fun update_one :: "string \<Rightarrow> (Bot \<Rightarrow> Bot) \<Rightarrow> Bot list \<Rightarrow> Bot list" where
  "update_one i f [] = []"
| "update_one i f (b # bs) = (if id_bot b = i then f b # bs else b # update_one i f bs)"

fun delete_one :: "string \<Rightarrow> Bot list \<Rightarrow> Bot list" where
  "delete_one i [] = []"
| "delete_one i (b # bs) = (if id_bot b = i then bs else b # delete_one i bs)"

definition delete_many :: "string \<Rightarrow> LogEntry list \<Rightarrow> LogEntry list" where
  "delete_many i ls = filter (\<lambda>l. bot_id l \<noteq> i) ls"

section \<open>ConnectionManager (lines 34-54)\<close>

text \<open>\<open>xs.remove(x)\<close>: drops the first occurrence, raises when there is none.\<close>

definition list_remove :: "'a \<Rightarrow> 'a list \<Rightarrow> error + 'a list" where
  "list_remove x xs =
     (if x \<in> set xs then Inr (remove1 x xs)
      else Inl (ValueError ''list.remove(x): x not in list''))"

definition connect :: "WebSocket \<Rightarrow> state \<Rightarrow> state" where
  "connect websocket s = s\<lparr>active_connections := active_connections s @ [websocket]\<rparr>"

definition disconnect :: "WebSocket \<Rightarrow> state \<Rightarrow> (error + unit) \<times> state" where
  "disconnect websocket s =
     (case list_remove websocket (active_connections s) of
        Inl e \<Rightarrow> (Inl e, s)
      | Inr cs \<Rightarrow> (Inr (), s\<lparr>active_connections := cs\<rparr>))"

definition send_text :: "WebSocket \<Rightarrow> ws_message \<Rightarrow> state \<Rightarrow> (error + unit) \<times> state" where
  "send_text connection m s =
     (if closed s connection
      then (Inl ConnectionClosed, s\<lparr>wire := wire s @ [Send_failed connection m]\<rparr>)
      else (Inr (), s\<lparr>wire := wire s @ [Sent connection m]\<rparr>))"

text \<open>
  \<open>broadcast\<close> (lines 48-54). Python's \<open>for connection in self.active_connections\<close>
  walks the list object by an index that it advances after every element, and reads
  the list afresh at every step; \<open>broadcast_from i\<close> is the loop with the iterator at
  index \<open>i\<close>. The bare \<open>except:\<close> catches whatever \<open>send_text\<close> raises; an exception of
  the handler itself (\<open>remove\<close>) would leave the loop.
\<close>

function broadcast_from :: "nat \<Rightarrow> ws_message \<Rightarrow> state \<Rightarrow> (error + unit) \<times> state" where
  "broadcast_from i m s =
     (if i < length (active_connections s) then
        (case send_text (active_connections s ! i) m s of
           (Inr u, s1) \<Rightarrow> broadcast_from (Suc i) m s1
         | (Inl e, s1) \<Rightarrow>
             (case list_remove (active_connections s ! i) (active_connections s1) of
                Inl e' \<Rightarrow> (Inl e', s1)
              | Inr cs \<Rightarrow> broadcast_from (Suc i) m (s1\<lparr>active_connections := cs\<rparr>)))
      else (Inr (), s))"
  by pat_completeness auto
termination
  by (relation "measure (\<lambda>(i, m, s). length (active_connections s) - i)")
    (auto simp: send_text_def list_remove_def length_remove1 split: if_splits)

definition broadcast :: "ws_message \<Rightarrow> state \<Rightarrow> (error + unit) \<times> state" where
  "broadcast m s = broadcast_from 0 m s"

section \<open>Utility functions (lines 131-174)\<close>

definition get_bot_by_id :: "string \<Rightarrow> state \<Rightarrow> Bot option" where
  "get_bot_by_id i s = find_one i (bots s)"

text \<open>
  \<open>update_bot_status\<close> (lines 137-147). The \<open>$set\<close> document always holds \<open>status\<close>;
  \<open>pid\<close> when the argument is not \<open>None\<close>; \<open>last_started\<close> for \<open>RUNNING\<close>; and for
  \<open>STOPPED\<close> both \<open>last_stopped\<close> and \<open>pid = None\<close>, the latter overriding the argument.
\<close>

definition update_bot_status :: "string \<Rightarrow> BotStatus \<Rightarrow> int option \<Rightarrow> state \<Rightarrow> state" where
  "update_bot_status i st p s =
     (let set_status = (\<lambda>b :: Bot. b\<lparr>status := st\<rparr>);
          set_pid = (case p of None \<Rightarrow> set_status | Some v \<Rightarrow> (\<lambda>b. (set_status b)\<lparr>pid := Some v\<rparr>))
      in if st = RUNNING then
           (case utcnow s of (t, s1) \<Rightarrow>
              s1\<lparr>bots := update_one i (\<lambda>b. (set_pid b)\<lparr>last_started := Some t\<rparr>) (bots s1)\<rparr>)
         else if st = STOPPED then
           (case utcnow s of (t, s1) \<Rightarrow>
              s1\<lparr>bots := update_one i (\<lambda>b. (set_pid b)\<lparr>last_stopped := Some t, pid := None\<rparr>) (bots s1)\<rparr>)
         else s\<lparr>bots := update_one i set_pid (bots s)\<rparr>)"

text \<open>
  \<open>log_message\<close> (lines 149-162): the entry takes a fresh \<open>id\<close> and the current time,
  is inserted into \<open>db.logs\<close> and then broadcast.
\<close>

definition log_message :: "string \<Rightarrow> string \<Rightarrow> string \<Rightarrow> string \<Rightarrow> state \<Rightarrow> (error + unit) \<times> state" where
  "log_message i lvl msg src s =
     (case uuid4 s of (u, s1) \<Rightarrow>
      case utcnow s1 of (t, s2) \<Rightarrow>
        (let log_entry = \<lparr>id_log = u, bot_id = i, timestamp = t, level = lvl,
                           message = msg, source = src\<rparr>
         in broadcast (Log_update log_entry) (s2\<lparr>logs := logs s2 @ [log_entry]\<rparr>)))"

text \<open>\<open>psutil.NoSuchProcess\<close> becomes \<open>None\<close>.\<close>

definition get_process_stats :: "int \<Rightarrow> state \<Rightarrow> process_stats option" where
  "get_process_stats p s = processes s p"

section \<open>Endpoints (lines 181-329)\<close>


text \<open>
  The body shared by \<open>get_bots\<close> (lines 195-207) and \<open>get_bot\<close> (lines 218-228):
  \<open>if bot.status == RUNNING and bot.pid\<close> holds for a pid that is neither \<open>None\<close> nor
  \<open>0\<close>. With statistics the uptime is computed, which reads the clock; without, the
  stored record is set to \<open>STOPPED\<close> and so is the status of the response object, whose
  \<open>pid\<close> stays.
\<close>

definition refresh_bot :: "Bot \<Rightarrow> state \<Rightarrow> Bot \<times> state" where
  "refresh_bot b s =
     (case pid b of
        None \<Rightarrow> (b, s)
      | Some p \<Rightarrow>
          if status b = RUNNING \<and> p \<noteq> 0 then
            (case get_process_stats p s of
               Some stats \<Rightarrow> (case utcnow s of (t, s1) \<Rightarrow> (b, s1))
             | None \<Rightarrow> (b\<lparr>status := STOPPED\<rparr>, update_bot_status (id_bot b) STOPPED None s))
          else (b, s))"

fun get_bots_loop :: "Bot list \<Rightarrow> state \<Rightarrow> Bot list \<times> state" where
  "get_bots_loop [] s = ([], s)"
| "get_bots_loop (b # rest) s =
     (case refresh_bot b s of (b', s1) \<Rightarrow>
      case get_bots_loop rest s1 of (out, s2) \<Rightarrow> (b' # out, s2))"

definition get_bots :: "state \<Rightarrow> (error + response) \<times> state" where
  "get_bots s =
     (case get_bots_loop (take 1000 (bots s)) s of (out, s1) \<Rightarrow> (Inr (Bots_body out), s1))"

definition get_bot :: "string \<Rightarrow> state \<Rightarrow> (error + response) \<times> state" where
  "get_bot i s =
     (case get_bot_by_id i s of
        None \<Rightarrow> (Inl (HTTPException 404 ''Bot not found''), s)
      | Some b \<Rightarrow> (case refresh_bot b s of (b', s1) \<Rightarrow> (Inr (Bot_body b'), s1)))"

text \<open>
  \<open>start_bot\<close> (lines 260-290). The \<open>try\<close> block and the \<open>except Exception\<close> handler are
  \<open>start_bot_try\<close> and \<open>start_bot_except\<close>. The environment \<open>env\<close> is built and never
  used; no process is created: the pid is a random number.
\<close>

definition start_bot_try :: "string \<Rightarrow> Bot \<Rightarrow> state \<Rightarrow> (error + response) \<times> state" where
  "start_bot_try i b s =
     (case log_message i ''INFO'' (''Starting bot '' @ quoted (name b)) ''api''
             (update_bot_status i STARTING None s) of
        (Inl e, s1) \<Rightarrow> (Inl e, s1)
      | (Inr _, s1) \<Rightarrow>
          (let env = os_environ s1 ++ environment_vars b in
           case randint 1000 9999 s1 of (fake_pid, s2) \<Rightarrow>
           case log_message i ''INFO''
                  (''Bot '' @ quoted (name b) @ '' started successfully with PID '' @ str_int fake_pid)
                  ''system'' (update_bot_status i RUNNING (Some fake_pid) s2) of
             (Inl e, s3) \<Rightarrow> (Inl e, s3)
           | (Inr _, s3) \<Rightarrow> (Inr (Started ''Bot started successfully'' fake_pid), s3)))"

definition start_bot_except :: "string \<Rightarrow> error \<Rightarrow> state \<Rightarrow> (error + response) \<times> state" where
  "start_bot_except i e s =
     (case log_message i ''ERROR'' (''Failed to start bot: '' @ str_error e) ''system''
             (update_bot_status i ERROR None s) of
        (Inl e', s1) \<Rightarrow> (Inl e', s1)
      | (Inr _, s1) \<Rightarrow> (Inl (HTTPException 500 (''Failed to start bot: '' @ str_error e)), s1))"

definition start_bot :: "string \<Rightarrow> state \<Rightarrow> (error + response) \<times> state" where
  "start_bot i s =
     (case get_bot_by_id i s of
        None \<Rightarrow> (Inl (HTTPException 404 ''Bot not found''), s)
      | Some b \<Rightarrow>
          if status b = RUNNING then (Inl (HTTPException 400 ''Bot is already running''), s)
          else (case start_bot_try i b s of
                  (Inl e, s1) \<Rightarrow> start_bot_except i e s1
                | (Inr r, s1) \<Rightarrow> (Inr r, s1)))"

text \<open>
  \<open>stop_bot\<close> (lines 292-318). Nothing is signalled or killed: \<open>if bot.pid: pass\<close>.
\<close>

definition stop_bot_try :: "string \<Rightarrow> Bot \<Rightarrow> state \<Rightarrow> (error + response) \<times> state" where
  "stop_bot_try i b s =
     (case log_message i ''INFO'' (''Stopping bot '' @ quoted (name b)) ''api''
             (update_bot_status i STOPPING None s) of
        (Inl e, s1) \<Rightarrow> (Inl e, s1)
      | (Inr _, s1) \<Rightarrow>
          (case log_message i ''INFO'' (''Bot '' @ quoted (name b) @ '' stopped successfully'')
                  ''system'' (update_bot_status i STOPPED None s1) of
             (Inl e, s2) \<Rightarrow> (Inl e, s2)
           | (Inr _, s2) \<Rightarrow> (Inr (Message ''Bot stopped successfully''), s2)))"

definition stop_bot_except :: "string \<Rightarrow> error \<Rightarrow> state \<Rightarrow> (error + response) \<times> state" where
  "stop_bot_except i e s =
     (case log_message i ''ERROR'' (''Failed to stop bot: '' @ str_error e) ''system''
             (update_bot_status i ERROR None s) of
        (Inl e', s1) \<Rightarrow> (Inl e', s1)
      | (Inr _, s1) \<Rightarrow> (Inl (HTTPException 500 (''Failed to stop bot: '' @ str_error e)), s1))"

definition stop_bot :: "string \<Rightarrow> state \<Rightarrow> (error + response) \<times> state" where
  "stop_bot i s =
     (case get_bot_by_id i s of
        None \<Rightarrow> (Inl (HTTPException 404 ''Bot not found''), s)
      | Some b \<Rightarrow>
          if status b \<noteq> RUNNING then (Inl (HTTPException 400 ''Bot is not running''), s)
          else (case stop_bot_try i b s of
                  (Inl e, s1) \<Rightarrow> stop_bot_except i e s1
                | (Inr r, s1) \<Rightarrow> (Inr r, s1)))"



text \<open>\<open>delete_bot\<close> (lines 245-258).\<close>

definition delete_bot :: "string \<Rightarrow> state \<Rightarrow> (error + response) \<times> state" where
  "delete_bot i s =
     (case get_bot_by_id i s of
        None \<Rightarrow> (Inl (HTTPException 404 ''Bot not found''), s)
      | Some b \<Rightarrow>
          (case (if status b = RUNNING then stop_bot i s else (Inr (Message []), s)) of
             (Inl e, s1) \<Rightarrow> (Inl e, s1)
           | (Inr _, s1) \<Rightarrow>
               (case log_message i ''INFO'' (''Bot '' @ quoted (name b) @ '' deleted'') ''api''
                       (s1\<lparr>bots := delete_one i (bots s1), logs := delete_many i (logs s1)\<rparr>) of
                  (Inl e, s2) \<Rightarrow> (Inl e, s2)
                | (Inr _, s2) \<Rightarrow> (Inr (Message ''Bot deleted successfully''), s2))))"

section \<open>The periodic WebSocket update (lines 384-431)\<close>

definition get_system_metrics :: "state \<Rightarrow> SystemMetrics \<times> state" where
  "get_system_metrics s =
     (case utcnow s of (t, s1) \<Rightarrow>
        (\<lparr>timestamp_metrics = t,
          active_bots = length (filter (\<lambda>b. status b = RUNNING) (bots s)),
          total_bots = length (bots s)\<rparr>, s1))"

text \<open>
  The loop of lines 395-408: a record with a pid that is neither \<open>None\<close> nor \<open>0\<close> and
  without statistics is set to \<open>STOPPED\<close> and left out of the update (\<open>continue\<close>).
\<close>

fun websocket_loop :: "Bot list \<Rightarrow> state \<Rightarrow> Bot list \<times> state" where
  "websocket_loop [] s = ([], s)"
| "websocket_loop (b # rest) s =
     (case (case pid b of
              None \<Rightarrow> (True, s)
            | Some p \<Rightarrow>
                if p \<noteq> 0 then
                  (case get_process_stats p s of
                     Some stats \<Rightarrow> (case utcnow s of (t, s1) \<Rightarrow> (True, s1))
                   | None \<Rightarrow> (False, update_bot_status (id_bot b) STOPPED None s))
                else (True, s)) of
        (keep, s1) \<Rightarrow>
          (case websocket_loop rest s1 of
             (out, s2) \<Rightarrow> ((if keep then b # out else out), s2)))"

text \<open>
  One round of the \<open>while True\<close> loop of \<open>websocket_endpoint\<close>, after its
  \<open>asyncio.sleep(5)\<close>.
\<close>

definition websocket_pass :: "state \<Rightarrow> (error + unit) \<times> state" where
  "websocket_pass s =
     (case get_system_metrics s of (metrics, s1) \<Rightarrow>
      case websocket_loop (take 100 (filter (\<lambda>b. status b = RUNNING) (bots s1))) s1 of
        (bots_with_stats, s2) \<Rightarrow> broadcast (System_update metrics bots_with_stats) s2)"

section \<open>Request sequences\<close>




section \<open>Notions used in the statements and proofs\<close>

text \<open>The invariant of the data model, on one record and on the store.\<close>

definition pid_matches_status :: "Bot \<Rightarrow> bool" where
  "pid_matches_status b \<longleftrightarrow> (pid b \<noteq> None) = (status b = RUNNING \<or> status b = STOPPING)"

definition bots_ok :: "state \<Rightarrow> bool" where
  "bots_ok s \<longleftrightarrow> (\<forall>b\<in>set (bots s). pid_matches_status b)"

text \<open>The \<open>send_text\<close> calls of one broadcast of \<open>m\<close> from state \<open>s\<close>.\<close>

definition broadcast_events :: "ws_message \<Rightarrow> state \<Rightarrow> send_event list" where
  "broadcast_events m s = drop (length (wire s)) (wire (snd (broadcast m s)))"

text \<open>
  For a list without repetitions, the loop of \<open>broadcast\<close> standing at the first
  element of \<open>xs\<close> calls \<open>send_text\<close> on \<open>attempted cl xs\<close> and leaves
  \<open>remaining cl xs\<close> of \<open>xs\<close> in the list, where \<open>cl\<close> tells the dead connections.
\<close>

fun attempted :: "(WebSocket \<Rightarrow> bool) \<Rightarrow> WebSocket list \<Rightarrow> WebSocket list" where
  "attempted cl [] = []"
| "attempted cl [c] = [c]"
| "attempted cl (c # d # ds) = c # (if cl c then attempted cl ds else attempted cl (d # ds))"

fun remaining :: "(WebSocket \<Rightarrow> bool) \<Rightarrow> WebSocket list \<Rightarrow> WebSocket list" where
  "remaining cl [] = []"
| "remaining cl [c] = (if cl c then [] else [c])"
| "remaining cl (c # d # ds) = (if cl c then d # remaining cl ds else c # remaining cl (d # ds))"

definition send_outcome :: "(WebSocket \<Rightarrow> bool) \<Rightarrow> ws_message \<Rightarrow> WebSocket \<Rightarrow> send_event" where
  "send_outcome cl m c = (if cl c then Send_failed c m else Sent c m)"

text \<open>
  What a reconciliation writes into a record at time \<open>t\<close>, and a store in which the
  first record with identifier \<open>i\<close> is \<open>b\<close> so reconciled.
\<close>

definition stop_record :: "datetime \<Rightarrow> Bot \<Rightarrow> Bot" where
  "stop_record t b = b\<lparr>status := STOPPED, last_stopped := Some t, pid := None\<rparr>"

definition reconciled :: "string \<Rightarrow> Bot \<Rightarrow> state \<Rightarrow> bool" where
  "reconciled i b s \<longleftrightarrow> (\<exists>t. get_bot_by_id i s = Some (stop_record t b))"

text \<open>The states after a broadcast and after a log message.\<close>

definition after_broadcast :: "ws_message \<Rightarrow> state \<Rightarrow> state" where
  "after_broadcast m s = snd (broadcast m s)"

definition after_log :: "string \<Rightarrow> string \<Rightarrow> string \<Rightarrow> string \<Rightarrow> state \<Rightarrow> state" where
  "after_log i lvl msg src s = snd (log_message i lvl msg src s)"

text \<open>
  Concrete data: the first bot of the test suite (backend\_test.py, lines 379-385) in
  three statuses, and a server with nothing running on the machine, the clock
  showing the number of its readings, and the random generator stuck at 1234.
\<close>

definition stopped_bot :: Bot where
  "stopped_bot =
     \<lparr>name = ''Discord Music Bot'', description = Some ''A Discord bot for playing music'',
      bot_type = DISCORD, command = ''python discord_bot.py'', working_directory = ''/app'',
      environment_vars = [''DISCORD_TOKEN'' \<mapsto> ''test_token_123''], port = None,
      id_bot = ''bot-1'', status = STOPPED, pid = None, created_at = 0,
      last_started = None, last_stopped = None\<rparr>"

definition running_bot :: Bot where
  "running_bot = stopped_bot\<lparr>status := RUNNING, pid := Some 4242, last_started := Some 0\<rparr>"

definition starting_bot :: Bot where
  "starting_bot = stopped_bot\<lparr>status := STARTING\<rparr>"

definition idle_server :: state where
  "idle_server =
     \<lparr>bots = [], logs = [], active_connections = [], closed = (\<lambda>c. False), wire = [],
      processes = (\<lambda>p. None), os_environ = Map.empty,
      clock = (\<lambda>n. n), clock_reads = 0,
      uuid_src = (\<lambda>n. ''uuid-'' @ str_nat n), uuid_draws = 0,
      entropy = (\<lambda>n. 234), entropy_draws = 0, pending = []\<rparr>"

definition server_with :: "Bot \<Rightarrow> state" where
  "server_with b = idle_server\<lparr>bots := [b]\<rparr>"

text \<open>A message to broadcast, and three listeners, the first of which has gone away.\<close>

definition ping :: ws_message where
  "ping = System_update \<lparr>timestamp_metrics = 0, active_bots = 0, total_bots = 0\<rparr> []"

definition three_listeners :: state where
  "three_listeners = idle_server\<lparr>active_connections := [1, 2, 3], closed := (\<lambda>c. c = 1)\<rparr>"

section \<open>The broadcast loop\<close>

declare broadcast_from.simps [simp del]

declare str_nat.simps [simp del]

text \<open>The three ways one step of the loop can go.\<close>

lemma broadcast_from_done:
  "\<not> i < length (active_connections s) \<Longrightarrow> broadcast_from i m s = (Inr (), s)"
  by (subst broadcast_from.simps) simp

lemma broadcast_from_sent:
  "i < length (active_connections s) \<Longrightarrow> \<not> closed s (active_connections s ! i) \<Longrightarrow>
   broadcast_from i m s =
     broadcast_from (Suc i) m (s\<lparr>wire := wire s @ [Sent (active_connections s ! i) m]\<rparr>)"
  by (subst broadcast_from.simps) (simp add: send_text_def)

lemma broadcast_from_failed:
  "i < length (active_connections s) \<Longrightarrow> closed s (active_connections s ! i) \<Longrightarrow>
   broadcast_from i m s =
     broadcast_from (Suc i) m
       (s\<lparr>wire := wire s @ [Send_failed (active_connections s ! i) m],
          active_connections := remove1 (active_connections s ! i) (active_connections s)\<rparr>)"
  by (subst broadcast_from.simps) (simp add: send_text_def list_remove_def)

lemma broadcast_from_no_raise: "fst (broadcast_from i m s) = Inr ()"
proof (induction "length (active_connections s) - i" arbitrary: i s rule: less_induct)
  case less
  show ?case
  proof (cases "i < length (active_connections s)")
    case False
    then show ?thesis by (simp add: broadcast_from_done)
  next
    case True
    show ?thesis
    proof (cases "closed s (active_connections s ! i)")
      case False
      with True less show ?thesis
        by (simp add: broadcast_from_sent)
    next
      case c: True
      with True less show ?thesis
        by (simp add: broadcast_from_failed length_remove1)
    qed
  qed
qed

lemma broadcast_from_frame:
  "\<exists>cs w. snd (broadcast_from i m s) = s\<lparr>active_connections := cs, wire := w\<rparr>"
proof (induction "length (active_connections s) - i" arbitrary: i s rule: less_induct)
  case less
  show ?case
  proof (cases "i < length (active_connections s)")
    case False
    have "s = s\<lparr>active_connections := active_connections s, wire := wire s\<rparr>" by simp
    with False show ?thesis by (metis broadcast_from_done snd_conv)
  next
    case True
    show ?thesis
    proof (cases "closed s (active_connections s ! i)")
      case False
      let ?s1 = "s\<lparr>wire := wire s @ [Sent (active_connections s ! i) m]\<rparr>"
      from True have "length (active_connections ?s1) - Suc i < length (active_connections s) - i"
        by simp
      from less[OF this] obtain cs w where
        "snd (broadcast_from (Suc i) m ?s1) = ?s1\<lparr>active_connections := cs, wire := w\<rparr>"
        by blast
      with True False have "snd (broadcast_from i m s) = s\<lparr>active_connections := cs, wire := w\<rparr>"
        by (simp add: broadcast_from_sent)
      then show ?thesis by blast
    next
      case c: True
      let ?s1 = "s\<lparr>wire := wire s @ [Send_failed (active_connections s ! i) m],
          active_connections := remove1 (active_connections s ! i) (active_connections s)\<rparr>"
      from True have "length (active_connections ?s1) - Suc i < length (active_connections s) - i"
        by (simp add: length_remove1)
      from less[OF this] obtain cs w where
        "snd (broadcast_from (Suc i) m ?s1) = ?s1\<lparr>active_connections := cs, wire := w\<rparr>"
        by blast
      with True c have "snd (broadcast_from i m s) = s\<lparr>active_connections := cs, wire := w\<rparr>"
        by (simp add: broadcast_from_failed)
      then show ?thesis by blast
    qed
  qed
qed

text \<open>The loop on a list without repetitions, in closed form.\<close>

lemma attempted_subset: "set (attempted cl xs) \<subseteq> set xs"
  by (induction cl xs rule: attempted.induct) auto

lemma remaining_subset: "set (remaining cl xs) \<subseteq> set xs"
  by (induction cl xs rule: remaining.induct) auto

lemma broadcast_from_distinct:
  "distinct (pre @ rest) \<Longrightarrow> active_connections s = pre @ rest \<Longrightarrow> closed s = cl \<Longrightarrow>
   broadcast_from (length pre) m s =
     (Inr (), s\<lparr>active_connections := pre @ remaining cl rest,
                wire := wire s @ map (send_outcome cl m) (attempted cl rest)\<rparr>)"
proof (induction cl rest arbitrary: pre s rule: attempted.induct)
  case (1 cl)
  then show ?case by (simp add: broadcast_from_done)
next
  case (2 cl c)
  then show ?case
    by (cases "cl c")
      (simp_all add: broadcast_from_failed broadcast_from_sent broadcast_from_done
        remove1_append send_outcome_def)
next
  case (3 cl c d ds)
  show ?case
  proof (cases "cl c")
    case True
    let ?s1 = "s\<lparr>wire := wire s @ [Send_failed c m], active_connections := (pre @ [d]) @ ds\<rparr>"
    have step: "broadcast_from (length pre) m s = broadcast_from (length (pre @ [d])) m ?s1"
      using 3(3,4,5) True by (simp add: broadcast_from_failed remove1_append)
    have "broadcast_from (length (pre @ [d])) m ?s1 =
      (Inr (), ?s1\<lparr>active_connections := (pre @ [d]) @ remaining cl ds,
                wire := wire ?s1 @ map (send_outcome cl m) (attempted cl ds)\<rparr>)"
      using 3(3,5) by (intro 3(1)[OF True]) auto
    with step True show ?thesis by (simp add: send_outcome_def)
  next
    case False
    let ?s1 = "s\<lparr>wire := wire s @ [Sent c m]\<rparr>"
    have step: "broadcast_from (length pre) m s = broadcast_from (length (pre @ [c])) m ?s1"
      using 3(3,4,5) False by (simp add: broadcast_from_sent)
    have "broadcast_from (length (pre @ [c])) m ?s1 =
      (Inr (), ?s1\<lparr>active_connections := (pre @ [c]) @ remaining cl (d # ds),
                wire := wire ?s1 @ map (send_outcome cl m) (attempted cl (d # ds))\<rparr>)"
      using 3(3,4,5) by (intro 3(2)[OF False]) auto
    with step False show ?thesis by (simp add: send_outcome_def)
  qed
qed

lemma broadcast_distinct:
  "distinct (active_connections s) \<Longrightarrow>
   broadcast m s =
     (Inr (), s\<lparr>active_connections := remaining (closed s) (active_connections s),
                wire := wire s @ map (send_outcome (closed s) m)
                          (attempted (closed s) (active_connections s))\<rparr>)"
  using broadcast_from_distinct[of "[]" "active_connections s" s "closed s" m]
  by (simp add: broadcast_def)

lemma broadcast_events_distinct:
  "distinct (active_connections s) \<Longrightarrow>
   broadcast_events m s = map (send_outcome (closed s) m) (attempted (closed s) (active_connections s))"
  by (simp add: broadcast_events_def broadcast_distinct)


lemma successor_skipped:
  "distinct xs \<Longrightarrow> Suc i < length xs \<Longrightarrow> xs ! i \<in> set (attempted cl xs) \<Longrightarrow> cl (xs ! i) \<Longrightarrow>
   xs ! Suc i \<notin> set (attempted cl xs) \<and> xs ! Suc i \<in> set (remaining cl xs)"
proof (induction cl xs arbitrary: i rule: attempted.induct)
  case (1 cl)
  then show ?case by simp
next
  case (2 cl c)
  then show ?case by simp
next
  case (3 cl c d ds)
  show ?case
  proof (cases "cl c")
    case True
    show ?thesis
    proof (cases i)
      case 0
      with True 3(3) attempted_subset[of cl ds] show ?thesis by auto
    next
      case (Suc j)
      show ?thesis
      proof (cases j)
        case 0
        with Suc True 3(3,5) attempted_subset[of cl ds] show ?thesis by auto
      next
        case (Suc k)
        with \<open>i = Suc j\<close> have i: "i = Suc (Suc k)" by simp
        have "ds ! k \<in> set ds" using 3(4) i by simp
        with 3(3) have ne: "ds ! k \<noteq> c" by auto
        have a: "ds ! k \<in> set (attempted cl ds)" using 3(5) i True ne by simp
        have "ds ! Suc k \<notin> set (attempted cl ds) \<and> ds ! Suc k \<in> set (remaining cl ds)"
          using 3(1)[OF True _ _ a] 3(3,4,6) i by simp
        moreover have "ds ! Suc k \<noteq> c" using 3(3,4) i by auto
        ultimately show ?thesis using True i by simp
      qed
    qed
  next
    case False
    show ?thesis
    proof (cases i)
      case 0
      with False 3(6) show ?thesis by simp
    next
      case (Suc j)
      have "(d # ds) ! j \<in> set (d # ds)" using 3(4) Suc by (simp del: set_simps nth_Cons_Suc add: nth_mem)
      with 3(3) have ne: "(d # ds) ! j \<noteq> c" by auto
      have a: "(d # ds) ! j \<in> set (attempted cl (d # ds))" using 3(5) Suc False ne by simp
      have "(d # ds) ! Suc j \<notin> set (attempted cl (d # ds)) \<and> (d # ds) ! Suc j \<in> set (remaining cl (d # ds))"
        using 3(2)[OF False _ _ a] 3(3,4,6) Suc by simp
      moreover have "(d # ds) ! Suc j \<noteq> c" using 3(3,4) Suc by auto
      ultimately show ?thesis using False Suc by simp
    qed
  qed
qed

section \<open>Effects of the utility functions\<close>

lemma broadcast_eq [simp]: "broadcast m s = (Inr (), after_broadcast m s)"
  using broadcast_from_no_raise[of 0 m s]
  by (simp add: after_broadcast_def broadcast_def prod_eq_iff)

lemma after_broadcast_frame:
  "\<exists>cs w. after_broadcast m s = s\<lparr>active_connections := cs, wire := w\<rparr>"
  unfolding after_broadcast_def broadcast_def by (rule broadcast_from_frame)

lemma after_broadcast_fields [simp]:
  "bots (after_broadcast m s) = bots s"
  "logs (after_broadcast m s) = logs s"
  "closed (after_broadcast m s) = closed s"
  "processes (after_broadcast m s) = processes s"
  "os_environ (after_broadcast m s) = os_environ s"
  "clock (after_broadcast m s) = clock s"
  "clock_reads (after_broadcast m s) = clock_reads s"
  "uuid_src (after_broadcast m s) = uuid_src s"
  "uuid_draws (after_broadcast m s) = uuid_draws s"
  "entropy (after_broadcast m s) = entropy s"
  "entropy_draws (after_broadcast m s) = entropy_draws s"
  "pending (after_broadcast m s) = pending s"
proof -
  obtain cs w where eq: "after_broadcast m s = s\<lparr>active_connections := cs, wire := w\<rparr>"
    using after_broadcast_frame by blast
  show "bots (after_broadcast m s) = bots s"
    and "logs (after_broadcast m s) = logs s"
    and "closed (after_broadcast m s) = closed s"
    and "processes (after_broadcast m s) = processes s"
    and "os_environ (after_broadcast m s) = os_environ s"
    and "clock (after_broadcast m s) = clock s"
    and "clock_reads (after_broadcast m s) = clock_reads s"
    and "uuid_src (after_broadcast m s) = uuid_src s"
    and "uuid_draws (after_broadcast m s) = uuid_draws s"
    and "entropy (after_broadcast m s) = entropy s"
    and "entropy_draws (after_broadcast m s) = entropy_draws s"
    and "pending (after_broadcast m s) = pending s"
    unfolding eq by simp_all
qed

lemma log_message_eq [simp]: "log_message i lvl msg src s = (Inr (), after_log i lvl msg src s)"
  by (simp add: after_log_def log_message_def uuid4_def utcnow_def Let_def)

lemma after_log_fields [simp]:
  "bots (after_log i lvl msg src s) = bots s"
  "logs (after_log i lvl msg src s) =
     logs s @ [\<lparr>id_log = uuid_src s (uuid_draws s), bot_id = i,
                timestamp = clock s (clock_reads s), level = lvl, message = msg, source = src\<rparr>]"
  "closed (after_log i lvl msg src s) = closed s"
  "processes (after_log i lvl msg src s) = processes s"
  "os_environ (after_log i lvl msg src s) = os_environ s"
  "clock (after_log i lvl msg src s) = clock s"
  "clock_reads (after_log i lvl msg src s) = Suc (clock_reads s)"
  "uuid_src (after_log i lvl msg src s) = uuid_src s"
  "uuid_draws (after_log i lvl msg src s) = Suc (uuid_draws s)"
  "entropy (after_log i lvl msg src s) = entropy s"
  "entropy_draws (after_log i lvl msg src s) = entropy_draws s"
  "pending (after_log i lvl msg src s) = pending s"
  unfolding after_log_def log_message_def uuid4_def utcnow_def by (simp_all add: Let_def)

lemma find_one_update_one:
  "(\<And>b. id_bot (f b) = id_bot b) \<Longrightarrow>
   find_one j (update_one i f bs) = (if j = i then map_option f (find_one i bs) else find_one j bs)"
  by (induction bs) auto

lemma map_id_update_one:
  "(\<And>b. id_bot (f b) = id_bot b) \<Longrightarrow> map id_bot (update_one i f bs) = map id_bot bs"
  by (induction bs) auto

lemma start_bot_result:
  assumes "get_bot_by_id i s = Some b" and "status b \<noteq> RUNNING"
  shows "start_bot i s =
    (Inr (Started ''Bot started successfully'' (fst (randint 1000 9999 s))),
     after_log i ''INFO''
       (''Bot '' @ quoted (name b) @ '' started successfully with PID '' @
          str_int (fst (randint 1000 9999 s)))
       ''system''
       (update_bot_status i RUNNING (Some (fst (randint 1000 9999 s)))
         (snd (randint 1000 9999
           (after_log i ''INFO'' (''Starting bot '' @ quoted (name b)) ''api''
              (update_bot_status i STARTING None s))))))"
  using assms
  by (simp add: start_bot_def start_bot_try_def randint_def update_bot_status_def utcnow_def)

lemma stop_bot_result:
  assumes "get_bot_by_id i s = Some b" and "status b = RUNNING"
  shows "stop_bot i s =
    (Inr (Message ''Bot stopped successfully''),
     after_log i ''INFO'' (''Bot '' @ quoted (name b) @ '' stopped successfully'') ''system''
       (update_bot_status i STOPPED None
          (after_log i ''INFO'' (''Stopping bot '' @ quoted (name b)) ''api''
             (update_bot_status i STOPPING None s))))"
  using assms by (simp add: stop_bot_def stop_bot_try_def)

lemma randint_range: "1000 \<le> fst (randint 1000 9999 s) \<and> fst (randint 1000 9999 s) \<le> 9999"
proof -
  have "entropy s (entropy_draws s) mod 9000 < 9000" by simp
  then show ?thesis unfolding randint_def by simp
qed

lemma update_bot_status_simps:
  "update_bot_status i STARTING None s = s\<lparr>bots := update_one i (\<lambda>b. b\<lparr>status := STARTING\<rparr>) (bots s)\<rparr>"
  "update_bot_status i STOPPING None s = s\<lparr>bots := update_one i (\<lambda>b. b\<lparr>status := STOPPING\<rparr>) (bots s)\<rparr>"
  "update_bot_status i ERROR None s = s\<lparr>bots := update_one i (\<lambda>b. b\<lparr>status := ERROR\<rparr>) (bots s)\<rparr>"
  "update_bot_status i RUNNING (Some p) s =
     s\<lparr>clock_reads := Suc (clock_reads s),
       bots := update_one i
         (\<lambda>b. b\<lparr>status := RUNNING, pid := Some p, last_started := Some (clock s (clock_reads s))\<rparr>)
         (bots s)\<rparr>"
  "update_bot_status i STOPPED None s =
     s\<lparr>clock_reads := Suc (clock_reads s),
       bots := update_one i
         (\<lambda>b. b\<lparr>status := STOPPED, last_stopped := Some (clock s (clock_reads s)), pid := None\<rparr>)
         (bots s)\<rparr>"
  by (simp_all add: update_bot_status_def utcnow_def)





text \<open>
  The connection list stays free of repetitions: a broadcast only removes entries, and
  \<open>connect\<close> appends the connection just accepted.
\<close>

lemma distinct_remaining: "distinct xs \<Longrightarrow> distinct (remaining cl xs)"
proof (induction cl xs rule: remaining.induct)
  case (3 cl c d ds)
  then show ?case
    using remaining_subset[of cl ds] remaining_subset[of cl "d # ds"] by auto
qed auto

lemma distinct_after_broadcast:
  "distinct (active_connections s) \<Longrightarrow> distinct (active_connections (snd (broadcast m s)))"
  by (simp del: broadcast_eq add: broadcast_distinct distinct_remaining)

lemma distinct_after_connect:
  "distinct (active_connections s) \<Longrightarrow> w \<notin> set (active_connections s) \<Longrightarrow>
   distinct (active_connections (connect w s))"
  by (simp add: connect_def)

section \<open>Broadcasting\<close>



text \<open>
  Claim C9. In a connection list without repetitions, when \<open>send_text\<close> fails on the
  connection at position \<open>i\<close> and there is a connection at position \<open>i + 1\<close>, then
  \<open>send_text\<close> is never called on that one during this broadcast, neither with success
  nor with failure, and it is still in the list afterwards: removing the failed
  connection moves its successor under the iterator, which then steps over it.
\<close>

theorem broadcast_skips_successor:
  assumes "distinct (active_connections s)"
    and "Suc i < length (active_connections s)"
    and "Send_failed (active_connections s ! i) m \<in> set (broadcast_events m s)"
  shows "Sent (active_connections s ! Suc i) m \<notin> set (broadcast_events m s) \<and>
         Send_failed (active_connections s ! Suc i) m \<notin> set (broadcast_events m s) \<and>
         active_connections s ! Suc i \<in> set (active_connections (snd (broadcast m s)))"
proof -
  let ?xs = "active_connections s"
  from assms(1,3) have "?xs ! i \<in> set (attempted (closed s) ?xs) \<and> closed s (?xs ! i)"
    by (auto simp: broadcast_events_distinct send_outcome_def split: if_splits)
  with assms(1,2) have "?xs ! Suc i \<notin> set (attempted (closed s) ?xs) \<and>
      ?xs ! Suc i \<in> set (remaining (closed s) ?xs)"
    by (simp add: successor_skipped)
  with assms(1) show ?thesis
    by (auto simp: broadcast_events_distinct send_outcome_def broadcast_distinct
          simp del: broadcast_eq split: if_splits)
qed

text \<open>
  With listeners 1, 2, 3 of which 1 is dead: listener 2 is alive, stays connected and
  gets nothing.
\<close>

theorem broadcast_skips_successor_witness:
  "distinct (active_connections three_listeners) \<and>
   Suc 0 < length (active_connections three_listeners) \<and>
   Send_failed (active_connections three_listeners ! 0) ping
     \<in> set (broadcast_events ping three_listeners) \<and>
   active_connections three_listeners ! Suc 0 = 2 \<and>
   \<not> closed three_listeners 2 \<and>
   Sent 2 ping \<notin> set (broadcast_events ping three_listeners) \<and>
   2 \<in> set (active_connections (snd (broadcast ping three_listeners)))"
proof -
  have d: "distinct (active_connections three_listeners)"
    and l: "Suc 0 < length (active_connections three_listeners)"
    and n: "active_connections three_listeners ! Suc 0 = 2"
    and c: "\<not> closed three_listeners 2"
    by (simp_all add: three_listeners_def idle_server_def)
  have f: "Send_failed (active_connections three_listeners ! 0) ping
      \<in> set (broadcast_events ping three_listeners)"
    by (simp add: broadcast_events_def broadcast_def broadcast_from_failed broadcast_from_sent
        broadcast_from_done three_listeners_def idle_server_def del: broadcast_eq)
  from broadcast_skips_successor[OF d l f] n c d l f show ?thesis by simp
qed

section \<open>Starting\<close>

text \<open>
  Claim C2, as the code has it. \<open>start_bot\<close> fails with 404 "Bot not found" when no
  record has the identifier, and with 400 "Bot is already running" when the status of
  the record is \<open>RUNNING\<close>. In every other status, \<open>STARTING\<close> included, it goes on and
  returns the message of success with a pid.
\<close>

theorem start_bot_guards:
  "(get_bot_by_id i s = None \<longrightarrow> start_bot i s = (Inl (HTTPException 404 ''Bot not found''), s)) \<and>
   (\<forall>b. get_bot_by_id i s = Some b \<longrightarrow>
      (status b = RUNNING \<longrightarrow>
         start_bot i s = (Inl (HTTPException 400 ''Bot is already running''), s)) \<and>
      (status b \<noteq> RUNNING \<longrightarrow>
         (\<exists>p. fst (start_bot i s) = Inr (Started ''Bot started successfully'' p))))"
  by (auto simp: start_bot_result) (simp_all add: start_bot_def)

theorem start_bot_guards_witness:
  "get_bot_by_id ''bot-1'' (server_with stopped_bot) = Some stopped_bot \<and>
   status stopped_bot \<noteq> RUNNING \<and>
   get_bot_by_id ''bot-2'' (server_with stopped_bot) = None \<and>
   start_bot ''bot-2'' (server_with stopped_bot) =
     (Inl (HTTPException 404 ''Bot not found''), server_with stopped_bot) \<and>
   (\<exists>p. fst (start_bot ''bot-1'' (server_with stopped_bot)) =
      Inr (Started ''Bot started successfully'' p))"
proof -
  have a: "get_bot_by_id ''bot-1'' (server_with stopped_bot) = Some stopped_bot"
    and b: "status stopped_bot \<noteq> RUNNING"
    and c: "get_bot_by_id ''bot-2'' (server_with stopped_bot) = None"
    by (simp_all add: get_bot_by_id_def server_with_def idle_server_def stopped_bot_def)
  from a b c start_bot_guards[of "''bot-1''" "server_with stopped_bot"]
    start_bot_guards[of "''bot-2''" "server_with stopped_bot"]
  show ?thesis by blast
qed

text \<open>
  The claim as written expects a failure for status \<open>STARTING\<close>. On a record in that
  status \<open>start_bot\<close> succeeds.
\<close>

theorem start_bot_starting_counterexample:
  "get_bot_by_id ''bot-1'' (server_with starting_bot) = Some starting_bot \<and>
   status starting_bot = STARTING \<and>
   fst (start_bot ''bot-1'' (server_with starting_bot)) =
     Inr (Started ''Bot started successfully'' 1234)"
  by (simp add: start_bot_def start_bot_try_def get_bot_by_id_def server_with_def
      idle_server_def starting_bot_def stopped_bot_def randint_def update_bot_status_def)

text \<open>
  Claim C3, as the code has it. On an existing record whose status is not \<open>RUNNING\<close>,
  \<open>start_bot\<close> sets the status to \<open>STARTING\<close>, writes the info log "Starting bot",
  draws a random number between 1000 and 9999, stores it as the pid together with the
  status \<open>RUNNING\<close> and the start time, writes the info log "started successfully with
  PID" and returns that number. The process table and the environment of the server are
  what they were: nothing is spawned, and the merged environment is not used.
\<close>

theorem start_bot_effects:
  assumes "get_bot_by_id i s = Some b" and "status b \<noteq> RUNNING"
  shows "\<exists>p. 1000 \<le> p \<and> p \<le> 9999 \<and>
     fst (start_bot i s) = Inr (Started ''Bot started successfully'' p) \<and>
     get_bot_by_id i (update_bot_status i STARTING None s) = Some (b\<lparr>status := STARTING\<rparr>) \<and>
     snd (start_bot i s) =
       snd (log_message i ''INFO''
              (''Bot '' @ quoted (name b) @ '' started successfully with PID '' @ str_int p)
              ''system''
              (update_bot_status i RUNNING (Some p)
                 (snd (randint 1000 9999
                    (snd (log_message i ''INFO'' (''Starting bot '' @ quoted (name b)) ''api''
                            (update_bot_status i STARTING None s))))))) \<and>
     get_bot_by_id i (snd (start_bot i s)) =
       Some (b\<lparr>status := RUNNING, pid := Some p,
               last_started := Some (clock s (Suc (clock_reads s)))\<rparr>) \<and>
     logs (snd (start_bot i s)) =
       logs s @
       [\<lparr>id_log = uuid_src s (uuid_draws s), bot_id = i, timestamp = clock s (clock_reads s),
         level = ''INFO'', message = ''Starting bot '' @ quoted (name b), source = ''api''\<rparr>,
        \<lparr>id_log = uuid_src s (Suc (uuid_draws s)), bot_id = i,
         timestamp = clock s (Suc (Suc (clock_reads s))), level = ''INFO'',
         message = ''Bot '' @ quoted (name b) @ '' started successfully with PID '' @ str_int p,
         source = ''system''\<rparr>] \<and>
     processes (snd (start_bot i s)) = processes s \<and>
     os_environ (snd (start_bot i s)) = os_environ s"
proof (intro exI conjI)
  let ?p = "fst (randint 1000 9999 s)"
  show "1000 \<le> ?p" and "?p \<le> 9999" using randint_range[of s] by simp_all
  show "fst (start_bot i s) = Inr (Started ''Bot started successfully'' ?p)"
    by (simp add: start_bot_result[OF assms])
  show "get_bot_by_id i (update_bot_status i STARTING None s) = Some (b\<lparr>status := STARTING\<rparr>)"
    using assms(1) by (simp add: get_bot_by_id_def update_bot_status_simps find_one_update_one)
  show "snd (start_bot i s) =
       snd (log_message i ''INFO''
              (''Bot '' @ quoted (name b) @ '' started successfully with PID '' @ str_int ?p)
              ''system''
              (update_bot_status i RUNNING (Some ?p)
                 (snd (randint 1000 9999
                    (snd (log_message i ''INFO'' (''Starting bot '' @ quoted (name b)) ''api''
                            (update_bot_status i STARTING None s)))))))"
    by (simp add: start_bot_result[OF assms])
  show "get_bot_by_id i (snd (start_bot i s)) =
       Some (b\<lparr>status := RUNNING, pid := Some ?p,
               last_started := Some (clock s (Suc (clock_reads s)))\<rparr>)"
    using assms(1)
    by (simp add: start_bot_result[OF assms] get_bot_by_id_def update_bot_status_simps
        find_one_update_one randint_def)
  show "logs (snd (start_bot i s)) =
       logs s @
       [\<lparr>id_log = uuid_src s (uuid_draws s), bot_id = i, timestamp = clock s (clock_reads s),
         level = ''INFO'', message = ''Starting bot '' @ quoted (name b), source = ''api''\<rparr>,
        \<lparr>id_log = uuid_src s (Suc (uuid_draws s)), bot_id = i,
         timestamp = clock s (Suc (Suc (clock_reads s))), level = ''INFO'',
         message = ''Bot '' @ quoted (name b) @ '' started successfully with PID '' @ str_int ?p,
         source = ''system''\<rparr>]"
    by (simp add: start_bot_result[OF assms] update_bot_status_simps randint_def)
  show "processes (snd (start_bot i s)) = processes s"
    by (simp add: start_bot_result[OF assms] update_bot_status_simps randint_def)
  show "os_environ (snd (start_bot i s)) = os_environ s"
    by (simp add: start_bot_result[OF assms] update_bot_status_simps randint_def)
qed

theorem start_bot_effects_witness:
  "get_bot_by_id ''bot-1'' (server_with stopped_bot) = Some stopped_bot \<and>
   status stopped_bot \<noteq> RUNNING \<and>
   (\<exists>p. 1000 \<le> p \<and> p \<le> 9999 \<and>
     fst (start_bot ''bot-1'' (server_with stopped_bot)) =
       Inr (Started ''Bot started successfully'' p) \<and>
     get_bot_by_id ''bot-1'' (snd (start_bot ''bot-1'' (server_with stopped_bot))) =
       Some (stopped_bot\<lparr>status := RUNNING, pid := Some p,
               last_started := Some (clock (server_with stopped_bot)
                 (Suc (clock_reads (server_with stopped_bot))))\<rparr>) \<and>
     processes (snd (start_bot ''bot-1'' (server_with stopped_bot))) =
       processes (server_with stopped_bot))"
proof -
  have a: "get_bot_by_id ''bot-1'' (server_with stopped_bot) = Some stopped_bot"
    and b: "status stopped_bot \<noteq> RUNNING"
    by (simp_all add: get_bot_by_id_def server_with_def idle_server_def stopped_bot_def)
  from start_bot_effects[OF a b] a b show ?thesis by blast
qed

text \<open>
  The claim as written has an operating-system process created and its pid captured.
  On a machine where no process 1234 exists, \<open>start_bot\<close> reports and stores pid 1234,
  and afterwards there is still no such process.
\<close>

theorem start_bot_no_process_counterexample:
  "get_bot_by_id ''bot-1'' (server_with stopped_bot) = Some stopped_bot \<and>
   fst (start_bot ''bot-1'' (server_with stopped_bot)) =
     Inr (Started ''Bot started successfully'' 1234) \<and>
   map pid (bots (snd (start_bot ''bot-1'' (server_with stopped_bot)))) = [Some 1234] \<and>
   get_process_stats 1234 (snd (start_bot ''bot-1'' (server_with stopped_bot))) = None"
  by (simp add: start_bot_def start_bot_try_def get_bot_by_id_def server_with_def
      idle_server_def stopped_bot_def randint_def update_bot_status_simps get_process_stats_def)

section \<open>Stopping\<close>

text \<open>
  Claim C4. For a record whose status is \<open>RUNNING\<close>, \<open>stop_bot\<close> succeeds, and
  afterwards the record has status \<open>STOPPED\<close>, no pid, and as \<open>last_stopped\<close> the time
  read when the status was written (the second reading of the clock, the first being
  that of the log entry "Stopping bot"). All other fields are as before.
\<close>

theorem stop_bot_running:
  assumes "get_bot_by_id i s = Some b" and "status b = RUNNING"
  shows "fst (stop_bot i s) = Inr (Message ''Bot stopped successfully'') \<and>
         get_bot_by_id i (snd (stop_bot i s)) =
           Some (b\<lparr>status := STOPPED, pid := None,
                   last_stopped := Some (clock s (Suc (clock_reads s)))\<rparr>)"
  using assms(1)
  by (simp add: stop_bot_result[OF assms] get_bot_by_id_def update_bot_status_simps
      find_one_update_one)

theorem stop_bot_running_witness:
  "get_bot_by_id ''bot-1'' (server_with running_bot) = Some running_bot \<and>
   status running_bot = RUNNING \<and> pid running_bot = Some 4242 \<and>
   fst (stop_bot ''bot-1'' (server_with running_bot)) = Inr (Message ''Bot stopped successfully'') \<and>
   get_bot_by_id ''bot-1'' (snd (stop_bot ''bot-1'' (server_with running_bot))) =
     Some (running_bot\<lparr>status := STOPPED, pid := None, last_stopped := Some 1\<rparr>)"
proof -
  have a: "get_bot_by_id ''bot-1'' (server_with running_bot) = Some running_bot"
    and b: "status running_bot = RUNNING" and c: "pid running_bot = Some 4242"
    and d: "clock (server_with running_bot) (Suc (clock_reads (server_with running_bot))) = 1"
    by (simp_all add: get_bot_by_id_def server_with_def idle_server_def running_bot_def
        stopped_bot_def)
  from stop_bot_running[OF a b] a b c d show ?thesis by simp
qed

text \<open>
  Claim C7. For an existing record whose status is not \<open>RUNNING\<close>, \<open>stop_bot\<close> raises
  400 "Bot is not running" and the whole state is as before: the record, the other
  records and the log store.
\<close>

theorem stop_bot_not_running:
  assumes "get_bot_by_id i s = Some b" and "status b \<noteq> RUNNING"
  shows "stop_bot i s = (Inl (HTTPException 400 ''Bot is not running''), s)"
  using assms by (simp add: stop_bot_def)

theorem stop_bot_not_running_witness:
  "get_bot_by_id ''bot-1'' (server_with stopped_bot) = Some stopped_bot \<and>
   status stopped_bot = STOPPED \<and>
   stop_bot ''bot-1'' (server_with stopped_bot) =
     (Inl (HTTPException 400 ''Bot is not running''), server_with stopped_bot) \<and>
   bots (snd (stop_bot ''bot-1'' (server_with stopped_bot))) = [stopped_bot] \<and>
   logs (snd (stop_bot ''bot-1'' (server_with stopped_bot))) = []"
proof -
  have a: "get_bot_by_id ''bot-1'' (server_with stopped_bot) = Some stopped_bot"
    and b: "status stopped_bot = STOPPED" and c: "status stopped_bot \<noteq> RUNNING"
    and d: "bots (server_with stopped_bot) = [stopped_bot]"
    and e: "logs (server_with stopped_bot) = []"
    by (simp_all add: get_bot_by_id_def server_with_def idle_server_def stopped_bot_def)
  from stop_bot_not_running[OF a c] a b d e show ?thesis by simp
qed

section \<open>Restarting\<close>



section \<open>Deleting\<close>

lemma map_id_delete_one: "map id_bot (delete_one i bs) = remove1 i (map id_bot bs)"
  by (induction bs) auto

lemma filter_delete_many: "filter (\<lambda>l. bot_id l = i) (delete_many i ls) = []"
  by (simp add: delete_many_def filter_empty_conv)

lemma delete_bot_result:
  assumes "get_bot_by_id i s = Some b"
  shows "\<exists>s1. bots s1 = bots (if status b = RUNNING then snd (stop_bot i s) else s) \<and>
     delete_bot i s =
       (Inr (Message ''Bot deleted successfully''),
        after_log i ''INFO'' (''Bot '' @ quoted (name b) @ '' deleted'') ''api''
          (s1\<lparr>bots := delete_one i (bots s1), logs := delete_many i (logs s1)\<rparr>))"
proof (cases "status b = RUNNING")
  case True
  show ?thesis
    by (rule exI[of _ "snd (stop_bot i s)"])
      (simp add: delete_bot_def assms True stop_bot_result[OF assms True])
next
  case False
  show ?thesis
    by (rule exI[of _ s]) (simp add: delete_bot_def assms False)
qed

lemma bots_after_stop:
  "map id_bot (bots (snd (stop_bot i s))) = map id_bot (bots s)"
proof (cases "get_bot_by_id i s")
  case None
  then show ?thesis by (simp add: stop_bot_def)
next
  case (Some b)
  show ?thesis
  proof (cases "status b = RUNNING")
    case True
    show ?thesis
      by (simp add: stop_bot_result[OF Some True] update_bot_status_simps map_id_update_one)
  next
    case False
    with Some show ?thesis by (simp add: stop_bot_def)
  qed
qed

text \<open>
  Claim C10. Deleting an existing bot succeeds; one record with the identifier is gone
  from \<open>db.bots\<close>; and of the log entries with that \<open>bot_id\<close> exactly one is left, the
  info entry "Bot ... deleted" from source "api", written after the others were removed
  (those of a stop that the deletion caused included).
\<close>

theorem delete_bot_leaves_one_log:
  assumes "get_bot_by_id i s = Some b"
  shows "fst (delete_bot i s) = Inr (Message ''Bot deleted successfully'') \<and>
         map id_bot (bots (snd (delete_bot i s))) = remove1 i (map id_bot (bots s)) \<and>
         (\<exists>u t. filter (\<lambda>l. bot_id l = i) (logs (snd (delete_bot i s))) =
            [\<lparr>id_log = u, bot_id = i, timestamp = t, level = ''INFO'',
              message = ''Bot '' @ quoted (name b) @ '' deleted'', source = ''api''\<rparr>]) \<and>
         length (filter (\<lambda>l. bot_id l = i) (logs (snd (delete_bot i s)))) = 1"
proof -
  from delete_bot_result[OF assms] obtain s1 where
    b: "bots s1 = bots (if status b = RUNNING then snd (stop_bot i s) else s)" and
    d: "delete_bot i s =
       (Inr (Message ''Bot deleted successfully''),
        after_log i ''INFO'' (''Bot '' @ quoted (name b) @ '' deleted'') ''api''
          (s1\<lparr>bots := delete_one i (bots s1), logs := delete_many i (logs s1)\<rparr>))"
    by blast
  have "map id_bot (bots s1) = map id_bot (bots s)"
    using b by (simp add: bots_after_stop)
  then show ?thesis
    by (simp add: d map_id_delete_one filter_delete_many)
qed

theorem delete_bot_leaves_one_log_witness:
  "get_bot_by_id ''bot-1'' (server_with running_bot) = Some running_bot \<and>
   fst (delete_bot ''bot-1'' (server_with running_bot)) = Inr (Message ''Bot deleted successfully'') \<and>
   bots (snd (delete_bot ''bot-1'' (server_with running_bot))) = [] \<and>
   length (filter (\<lambda>l. bot_id l = ''bot-1'')
     (logs (snd (delete_bot ''bot-1'' (server_with running_bot))))) = 1"
proof -
  have a: "get_bot_by_id ''bot-1'' (server_with running_bot) = Some running_bot"
    and b: "map id_bot (bots (server_with running_bot)) = [''bot-1'']"
    by (simp_all add: get_bot_by_id_def server_with_def idle_server_def running_bot_def
        stopped_bot_def)
  from delete_bot_leaves_one_log[OF a] a b show ?thesis by simp
qed

section \<open>Reconciliation\<close>

lemma update_stopped:
  "update_bot_status j STOPPED None s =
     s\<lparr>clock_reads := Suc (clock_reads s),
       bots := update_one j (stop_record (clock s (clock_reads s))) (bots s)\<rparr>"
proof -
  have "stop_record (clock s (clock_reads s)) =
      (\<lambda>b. b\<lparr>status := STOPPED, last_stopped := Some (clock s (clock_reads s)), pid := None\<rparr>)"
    by (rule ext) (simp add: stop_record_def)
  then show ?thesis by (simp add: update_bot_status_simps)
qed

lemma id_stop_record [simp]: "id_bot (stop_record t b) = id_bot b"
  by (simp add: stop_record_def)

lemma stop_record_twice [simp]: "stop_record t (stop_record u b) = stop_record t b"
  by (simp add: stop_record_def)

lemma reconciled_update:
  "reconciled i b s \<Longrightarrow> reconciled i b (update_bot_status j STOPPED None s)"
  by (auto simp: reconciled_def get_bot_by_id_def update_stopped find_one_update_one)

lemma reconciled_clock:
  "reconciled i b s \<Longrightarrow> reconciled i b (s\<lparr>clock_reads := n\<rparr>)"
  by (simp add: reconciled_def get_bot_by_id_def)

lemma refresh_bot_dead:
  "status x = RUNNING \<Longrightarrow> pid x = Some q \<Longrightarrow> q \<noteq> 0 \<Longrightarrow> processes s q = None \<Longrightarrow>
   refresh_bot x s = (x\<lparr>status := STOPPED\<rparr>, update_bot_status (id_bot x) STOPPED None s)"
  by (simp add: refresh_bot_def get_process_stats_def)

lemma refresh_bot_cases:
  "snd (refresh_bot x s) = s \<or>
   snd (refresh_bot x s) = s\<lparr>clock_reads := Suc (clock_reads s)\<rparr> \<or>
   snd (refresh_bot x s) = update_bot_status (id_bot x) STOPPED None s"
  by (auto simp: refresh_bot_def get_process_stats_def utcnow_def split: option.splits)

lemma refresh_bot_frame:
  "logs (snd (refresh_bot x s)) = logs s \<and> processes (snd (refresh_bot x s)) = processes s"
  using refresh_bot_cases[of x s] by (auto simp: update_stopped)

lemma refresh_bot_reconciled:
  "reconciled i b s \<Longrightarrow> reconciled i b (snd (refresh_bot x s))"
  using refresh_bot_cases[of x s] by (auto simp: reconciled_update reconciled_clock)

lemma refresh_bot_other:
  assumes "get_bot_by_id i s = Some b"
  shows "get_bot_by_id i (snd (refresh_bot x s)) = Some b \<or> reconciled i b (snd (refresh_bot x s))"
proof -
  have "get_bot_by_id i (update_bot_status (id_bot x) STOPPED None s) = Some b \<or>
        reconciled i b (update_bot_status (id_bot x) STOPPED None s)"
    using assms
    by (auto simp: reconciled_def get_bot_by_id_def update_stopped find_one_update_one)
  moreover have "get_bot_by_id i (s\<lparr>clock_reads := Suc (clock_reads s)\<rparr>) = Some b"
    using assms by (simp add: get_bot_by_id_def)
  ultimately show ?thesis using refresh_bot_cases[of x s] assms by auto
qed

lemma find_one_mem: "find_one i bs = Some b \<Longrightarrow> id_bot b = i \<and> b \<in> set bs"
  by (induction bs) (auto split: if_splits)

lemma refresh_bot_self:
  assumes "get_bot_by_id i s = Some b" "status b = RUNNING" "pid b = Some p" "p \<noteq> 0"
    "processes s p = None"
  shows "reconciled i b (snd (refresh_bot b s))"
proof -
  have "id_bot b = i" using assms(1) find_one_mem by (simp add: get_bot_by_id_def)
  then show ?thesis
    using assms
    by (auto simp: refresh_bot_dead reconciled_def get_bot_by_id_def update_stopped
        find_one_update_one)
qed

lemma get_bots_loop_frame:
  "logs (snd (get_bots_loop xs s)) = logs s \<and> processes (snd (get_bots_loop xs s)) = processes s"
proof (induction xs arbitrary: s)
  case Nil
  then show ?case by simp
next
  case (Cons x xs)
  from Cons[of "snd (refresh_bot x s)"] refresh_bot_frame[of x s]
  show ?case by (simp add: split_beta)
qed

lemma get_bots_loop_reconciled:
  "reconciled i b s \<Longrightarrow> reconciled i b (snd (get_bots_loop xs s))"
proof (induction xs arbitrary: s)
  case Nil
  then show ?case by simp
next
  case (Cons x xs)
  from Cons.IH[OF refresh_bot_reconciled[OF Cons.prems, of x]]
  show ?case by (simp add: split_beta)
qed

lemma get_bots_loop_reconciles:
  assumes "get_bot_by_id i s = Some b" "status b = RUNNING" "pid b = Some p" "p \<noteq> 0"
    "processes s p = None" "b \<in> set xs"
  shows "reconciled i b (snd (get_bots_loop xs s))"
  using assms
proof (induction xs arbitrary: s)
  case Nil
  then show ?case by simp
next
  case (Cons x xs)
  let ?s1 = "snd (refresh_bot x s)"
  have step: "snd (get_bots_loop (x # xs) s) = snd (get_bots_loop xs ?s1)"
    by (simp add: split_beta)
  show ?case
  proof (cases "x = b")
    case True
    have "reconciled i b ?s1" unfolding True
      by (rule refresh_bot_self[OF Cons.prems(1-5)])
    then show ?thesis unfolding step by (rule get_bots_loop_reconciled)
  next
    case False
    with Cons.prems(6) have mem: "b \<in> set xs" by simp
    from refresh_bot_other[OF Cons.prems(1), of x] show ?thesis
    proof
      assume g: "get_bot_by_id i ?s1 = Some b"
      have "processes ?s1 p = None" using Cons.prems(5) refresh_bot_frame[of x s] by simp
      from Cons.IH[OF g Cons.prems(2,3,4) this mem] show ?thesis unfolding step .
    next
      assume "reconciled i b ?s1"
      then show ?thesis unfolding step by (rule get_bots_loop_reconciled)
    qed
  qed
qed

lemma update_stopped_other:
  assumes "get_bot_by_id i s = Some b"
  shows "get_bot_by_id i (update_bot_status j STOPPED None s) = Some b \<or>
         reconciled i b (update_bot_status j STOPPED None s)"
  using assms
  by (auto simp: reconciled_def get_bot_by_id_def update_stopped find_one_update_one)

lemma websocket_loop_step:
  "\<exists>s1. (s1 = s \<or> s1 = s\<lparr>clock_reads := Suc (clock_reads s)\<rparr> \<or>
          s1 = update_bot_status (id_bot x) STOPPED None s) \<and>
        (\<forall>q. pid x = Some q \<and> q \<noteq> 0 \<and> processes s q = None \<longrightarrow>
          s1 = update_bot_status (id_bot x) STOPPED None s) \<and>
        snd (websocket_loop (x # xs) s) = snd (websocket_loop xs s1)"
  by (auto simp: get_process_stats_def utcnow_def split_beta split: option.splits)

lemma websocket_loop_frame:
  "logs (snd (websocket_loop xs s)) = logs s \<and>
   processes (snd (websocket_loop xs s)) = processes s"
proof (induction xs arbitrary: s)
  case Nil
  then show ?case by simp
next
  case (Cons x xs)
  from websocket_loop_step[of s x xs] obtain s1 where
    c: "s1 = s \<or> s1 = s\<lparr>clock_reads := Suc (clock_reads s)\<rparr> \<or>
          s1 = update_bot_status (id_bot x) STOPPED None s"
    and e: "snd (websocket_loop (x # xs) s) = snd (websocket_loop xs s1)"
    by blast
  from c have "logs s1 = logs s \<and> processes s1 = processes s"
    by (auto simp: update_stopped)
  with Cons[of s1] e show ?case by simp
qed

lemma websocket_loop_reconciled:
  "reconciled i b s \<Longrightarrow> reconciled i b (snd (websocket_loop xs s))"
proof (induction xs arbitrary: s)
  case Nil
  then show ?case by simp
next
  case (Cons x xs)
  from websocket_loop_step[of s x xs] obtain s1 where
    c: "s1 = s \<or> s1 = s\<lparr>clock_reads := Suc (clock_reads s)\<rparr> \<or>
          s1 = update_bot_status (id_bot x) STOPPED None s"
    and e: "snd (websocket_loop (x # xs) s) = snd (websocket_loop xs s1)"
    by blast
  from c Cons.prems have "reconciled i b s1"
    by (auto simp: reconciled_update reconciled_clock)
  from Cons.IH[OF this] e show ?case by simp
qed

lemma websocket_loop_reconciles:
  assumes "get_bot_by_id i s = Some b" "pid b = Some p" "p \<noteq> 0"
    "processes s p = None" "b \<in> set xs"
  shows "reconciled i b (snd (websocket_loop xs s))"
  using assms
proof (induction xs arbitrary: s)
  case Nil
  then show ?case by simp
next
  case (Cons x xs)
  from websocket_loop_step[of s x xs] obtain s1 where
    c: "s1 = s \<or> s1 = s\<lparr>clock_reads := Suc (clock_reads s)\<rparr> \<or>
          s1 = update_bot_status (id_bot x) STOPPED None s"
    and d: "\<forall>q. pid x = Some q \<and> q \<noteq> 0 \<and> processes s q = None \<longrightarrow>
          s1 = update_bot_status (id_bot x) STOPPED None s"
    and e: "snd (websocket_loop (x # xs) s) = snd (websocket_loop xs s1)"
    by blast
  have idb: "id_bot b = i" using Cons.prems(1) find_one_mem by (simp add: get_bot_by_id_def)
  show ?case
  proof (cases "x = b")
    case True
    with d Cons.prems(2,3,4) have "s1 = update_bot_status i STOPPED None s" using idb by simp
    with Cons.prems(1) have "reconciled i b s1"
      by (auto simp: reconciled_def get_bot_by_id_def update_stopped find_one_update_one)
    then show ?thesis unfolding e by (rule websocket_loop_reconciled)
  next
    case False
    with Cons.prems(5) have mem: "b \<in> set xs" by simp
    have "get_bot_by_id i (s\<lparr>clock_reads := Suc (clock_reads s)\<rparr>) = Some b"
      using Cons.prems(1) by (simp add: get_bot_by_id_def)
    with c Cons.prems(1) update_stopped_other[OF Cons.prems(1), of "id_bot x"]
    have "get_bot_by_id i s1 = Some b \<or> reconciled i b s1"
      by blast
    then show ?thesis
    proof
      assume g: "get_bot_by_id i s1 = Some b"
      from c have "processes s1 = processes s" by (auto simp: update_stopped)
      with Cons.prems(4) have "processes s1 p = None" by simp
      from Cons.IH[OF g Cons.prems(2,3) this mem] show ?thesis unfolding e .
    next
      assume "reconciled i b s1"
      then show ?thesis unfolding e by (rule websocket_loop_reconciled)
    qed
  qed
qed

text \<open>
  Claim C6, as the code has it. Take a record that is the first with its identifier,
  has status \<open>RUNNING\<close> and a pid other than 0, and whose process no longer exists.
  Reading it with \<open>get_bot\<close>, listing the bots with \<open>get_bots\<close> when it is among the
  first 1000 records, and a round of the periodic update when it is among the first 100
  running records, each leave it with status \<open>STOPPED\<close>, no pid and a stop time. None of
  them writes a log entry.
\<close>

theorem reconciliation_stops_dead_bot:
  assumes "get_bot_by_id i s = Some b" and "status b = RUNNING" and "pid b = Some p"
    and "p \<noteq> 0" and "get_process_stats p s = None"
  shows "get_bot_by_id i (snd (get_bot i s)) =
           Some (b\<lparr>status := STOPPED, last_stopped := Some (clock s (clock_reads s)), pid := None\<rparr>) \<and>
         logs (snd (get_bot i s)) = logs s \<and>
         (b \<in> set (take 1000 (bots s)) \<longrightarrow>
            (\<exists>t. get_bot_by_id i (snd (get_bots s)) =
               Some (b\<lparr>status := STOPPED, last_stopped := Some t, pid := None\<rparr>))) \<and>
         logs (snd (get_bots s)) = logs s \<and>
         (b \<in> set (take 100 (filter (\<lambda>b. status b = RUNNING) (bots s))) \<longrightarrow>
            (\<exists>t. get_bot_by_id i (snd (websocket_pass s)) =
               Some (b\<lparr>status := STOPPED, last_stopped := Some t, pid := None\<rparr>))) \<and>
         logs (snd (websocket_pass s)) = logs s"
proof (intro conjI impI)
  have dead: "processes s p = None" using assms(5) by (simp add: get_process_stats_def)
  have idb: "id_bot b = i" using assms(1) find_one_mem by (simp add: get_bot_by_id_def)
  have one: "snd (get_bot i s) = update_bot_status i STOPPED None s"
    using assms(1) idb by (simp add: get_bot_def refresh_bot_dead[OF assms(2,3,4) dead])
  show "get_bot_by_id i (snd (get_bot i s)) =
      Some (b\<lparr>status := STOPPED, last_stopped := Some (clock s (clock_reads s)), pid := None\<rparr>)"
    using assms(1)
    by (simp add: one get_bot_by_id_def update_stopped find_one_update_one stop_record_def)
  show "logs (snd (get_bot i s)) = logs s" by (simp add: one update_stopped)
  show "logs (snd (get_bots s)) = logs s"
    using get_bots_loop_frame[of "take 1000 (bots s)" s] by (simp add: get_bots_def split_beta)
  let ?s1 = "snd (get_system_metrics s)"
  have s1: "?s1 = s\<lparr>clock_reads := Suc (clock_reads s)\<rparr>"
    by (simp add: get_system_metrics_def utcnow_def)
  have ws: "snd (websocket_pass s) =
      after_broadcast
        (System_update (fst (get_system_metrics s))
           (fst (websocket_loop (take 100 (filter (\<lambda>b. status b = RUNNING) (bots s))) ?s1)))
        (snd (websocket_loop (take 100 (filter (\<lambda>b. status b = RUNNING) (bots s))) ?s1))"
    by (simp add: websocket_pass_def split_beta s1 get_system_metrics_def utcnow_def)
  show "logs (snd (websocket_pass s)) = logs s"
    using websocket_loop_frame[of "take 100 (filter (\<lambda>b. status b = RUNNING) (bots s))" ?s1]
    by (simp add: ws s1)
  {
    assume m: "b \<in> set (take 1000 (bots s))"
    from get_bots_loop_reconciles[OF assms(1,2,3,4) dead m]
    show "\<exists>t. get_bot_by_id i (snd (get_bots s)) =
        Some (b\<lparr>status := STOPPED, last_stopped := Some t, pid := None\<rparr>)"
      by (simp add: get_bots_def split_beta reconciled_def stop_record_def)
  }
  {
    assume m: "b \<in> set (take 100 (filter (\<lambda>b. status b = RUNNING) (bots s)))"
    have g: "get_bot_by_id i ?s1 = Some b" using assms(1) by (simp add: s1 get_bot_by_id_def)
    have d: "processes ?s1 p = None" using dead by (simp add: s1)
    from websocket_loop_reconciles[OF g assms(3,4) d m]
    show "\<exists>t. get_bot_by_id i (snd (websocket_pass s)) =
        Some (b\<lparr>status := STOPPED, last_stopped := Some t, pid := None\<rparr>)"
      by (simp add: ws reconciled_def stop_record_def get_bot_by_id_def)
  }
qed

theorem reconciliation_stops_dead_bot_witness:
  "get_bot_by_id ''bot-1'' (server_with running_bot) = Some running_bot \<and>
   status running_bot = RUNNING \<and> pid running_bot = Some 4242 \<and> (4242 :: int) \<noteq> 0 \<and>
   get_process_stats 4242 (server_with running_bot) = None \<and>
   running_bot \<in> set (take 1000 (bots (server_with running_bot))) \<and>
   running_bot \<in> set (take 100 (filter (\<lambda>b. status b = RUNNING) (bots (server_with running_bot)))) \<and>
   get_bot_by_id ''bot-1'' (snd (get_bot ''bot-1'' (server_with running_bot))) =
     Some (running_bot\<lparr>status := STOPPED, last_stopped := Some 0, pid := None\<rparr>) \<and>
   (\<exists>t. get_bot_by_id ''bot-1'' (snd (get_bots (server_with running_bot))) =
     Some (running_bot\<lparr>status := STOPPED, last_stopped := Some t, pid := None\<rparr>)) \<and>
   (\<exists>t. get_bot_by_id ''bot-1'' (snd (websocket_pass (server_with running_bot))) =
     Some (running_bot\<lparr>status := STOPPED, last_stopped := Some t, pid := None\<rparr>)) \<and>
   logs (snd (get_bots (server_with running_bot))) = []"
proof -
  have a: "get_bot_by_id ''bot-1'' (server_with running_bot) = Some running_bot"
    and b: "status running_bot = RUNNING" and c: "pid running_bot = Some 4242"
    and d: "(4242 :: int) \<noteq> 0"
    and e: "get_process_stats 4242 (server_with running_bot) = None"
    and f: "running_bot \<in> set (take 1000 (bots (server_with running_bot)))"
    and g: "running_bot \<in> set (take 100 (filter (\<lambda>b. status b = RUNNING)
              (bots (server_with running_bot))))"
    and h: "clock (server_with running_bot) (clock_reads (server_with running_bot)) = 0"
    and l: "logs (server_with running_bot) = []"
    by (simp_all add: get_bot_by_id_def server_with_def idle_server_def running_bot_def
        stopped_bot_def get_process_stats_def)
  from reconciliation_stops_dead_bot[OF a b c d e] a b c d e f g h l
  show ?thesis by simp
qed

text \<open>
  The claim as written has a warning "process exited unexpectedly" logged. With one
  running bot whose process is gone and an empty log store, each of the three passes
  sets the bot to \<open>STOPPED\<close> and leaves the log store empty.
\<close>

theorem reconciliation_no_warning_counterexample:
  "get_bot_by_id ''bot-1'' (server_with running_bot) = Some running_bot \<and>
   status running_bot = RUNNING \<and> pid running_bot = Some 4242 \<and>
   get_process_stats 4242 (server_with running_bot) = None \<and>
   map status (bots (snd (get_bots (server_with running_bot)))) = [STOPPED] \<and>
   logs (snd (get_bots (server_with running_bot))) = [] \<and>
   map status (bots (snd (get_bot ''bot-1'' (server_with running_bot)))) = [STOPPED] \<and>
   logs (snd (get_bot ''bot-1'' (server_with running_bot))) = [] \<and>
   map status (bots (snd (websocket_pass (server_with running_bot)))) = [STOPPED] \<and>
   logs (snd (websocket_pass (server_with running_bot))) = []"
  by (simp add: get_bots_def get_bot_def websocket_pass_def refresh_bot_def get_bot_by_id_def
      get_system_metrics_def utcnow_def
      server_with_def idle_server_def running_bot_def stopped_bot_def get_process_stats_def
      update_bot_status_simps)

section \<open>The invariant on pid and status\<close>




lemma bots_ok_cong: "bots s' = bots s \<Longrightarrow> bots_ok s' = bots_ok s"
  by (simp add: bots_ok_def)
















text \<open>
  The two writes that are only seen while a request is being handled: \<open>STARTING\<close> in
  \<open>start_bot\<close> and \<open>STOPPING\<close> in \<open>stop_bot\<close>. They too keep the invariant, the first
  unless the record was in status \<open>STOPPING\<close>, which no request leaves behind.
\<close>

lemma all_update_found:
  "find_one i bs = Some b \<Longrightarrow> \<forall>x\<in>set bs. P x \<Longrightarrow> P (f b) \<Longrightarrow> \<forall>x\<in>set (update_one i f bs). P x"
  by (induction bs) (auto split: if_splits)

lemma transient_writes_ok:
  assumes "bots_ok s" and "get_bot_by_id i s = Some b"
  shows "status b \<noteq> RUNNING \<Longrightarrow> status b \<noteq> STOPPING \<Longrightarrow>
           bots_ok (update_bot_status i STARTING None s)"
    and "status b = RUNNING \<Longrightarrow> bots_ok (update_bot_status i STOPPING None s)"
proof -
  have b: "pid_matches_status b" and f: "find_one i (bots s) = Some b"
    using assms find_one_mem[of i "bots s" b] by (auto simp: bots_ok_def get_bot_by_id_def)
  show "bots_ok (update_bot_status i STARTING None s)"
    if "status b \<noteq> RUNNING" "status b \<noteq> STOPPING"
  proof -
    have "pid_matches_status (b\<lparr>status := STARTING\<rparr>)"
      using b that by (simp add: pid_matches_status_def)
    with all_update_found[OF f, of pid_matches_status "\<lambda>b. b\<lparr>status := STARTING\<rparr>"] assms(1)
    show ?thesis by (simp add: bots_ok_def update_bot_status_simps)
  qed
  show "bots_ok (update_bot_status i STOPPING None s)" if "status b = RUNNING"
  proof -
    have "pid_matches_status (b\<lparr>status := STOPPING\<rparr>)"
      using b that by (simp add: pid_matches_status_def)
    with all_update_found[OF f, of pid_matches_status "\<lambda>b. b\<lparr>status := STOPPING\<rparr>"] assms(1)
    show ?thesis by (simp add: bots_ok_def update_bot_status_simps)
  qed
qed

text \<open>
  The \<open>except\<close> handlers of \<open>start_bot\<close> and \<open>stop_bot\<close> write the status \<open>ERROR\<close> and
  leave the pid as it is. No request reaches them here, since nothing in the \<open>try\<close>
  blocks raises; a failure of the document store, which is not part of this model, would.
\<close>

lemma except_handlers_keep_pid:
  assumes "get_bot_by_id i s = Some b"
  shows "get_bot_by_id i (snd (start_bot_except i e s)) = Some (b\<lparr>status := ERROR\<rparr>)"
    and "get_bot_by_id i (snd (stop_bot_except i e s)) = Some (b\<lparr>status := ERROR\<rparr>)"
  using assms
  by (simp_all add: start_bot_except_def stop_bot_except_def get_bot_by_id_def
      update_bot_status_simps find_one_update_one)



end
